theory Spec2Isabelle
  imports Complex_Main
begin

section \<open>Grid trading controller (ceshi.py)\<close>

text \<open>
  The controller of \<^verbatim>\<open>ceshi.py\<close> keeps two dictionaries of orders, a base price and a
  few flags, and talks to an exchange through the four methods of \<^verbatim>\<open>BinanceAPI\<close>.
  Python dictionaries keep insertion order, and the code depends on it, so a dictionary
  is an association list in insertion order.
\<close>

subsection \<open>Floating point\<close>

text \<open>
  A Python float is a binary64 number. It is modelled by the real number it denotes, and
  every arithmetic operation rounds its exact result to the nearest number with a 53-bit
  significand, ties to the even significand, as the machine does. The range of the
  exponent is not modelled: no overflow to infinity, no subnormal numbers, no NaN.
  Comparisons are exact. An \<^verbatim>\<open>int\<close> operand is converted first, without error for the
  small integers of this program.
\<close>

text \<open>The nearest integer, a tie going to the even one.\<close>

definition round_even :: "real \<Rightarrow> int" where
  "round_even x =
     (let n = \<lfloor>x\<rfloor>; d = x - real_of_int n in
      if d < 1 / 2 then n else if 1 / 2 < d then n + 1 else if even n then n else n + 1)"

text \<open>
  The exponent \<open>e\<close> with \<open>2 ^ 52 \<le> x / 2 ^ e < 2 ^ 53\<close> for a positive \<open>x\<close>, found by
  doubling or halving; the first argument bounds the search.
\<close>

fun binade :: "nat \<Rightarrow> real \<Rightarrow> int \<Rightarrow> int" where
  "binade 0 x e = e"
| "binade (Suc n) x e =
     (if x < 2 ^ 52 then binade n (x * 2) (e - 1)
      else if 2 ^ 53 \<le> x then binade n (x / 2) (e + 1)
      else e)"

definition fl_pos :: "real \<Rightarrow> real" where
  "fl_pos x = (let e = binade 2200 x 0 in real_of_int (round_even (x / 2 powi e)) * 2 powi e)"

text \<open>Rounding to the nearest float.\<close>

definition fl :: "real \<Rightarrow> real" where
  "fl x = (if x = 0 then 0 else if x < 0 then - fl_pos (- x) else fl_pos x)"

text \<open>The operations \<^verbatim>\<open>+\<close>, \<^verbatim>\<open>-\<close>, \<^verbatim>\<open>*\<close> and \<^verbatim>\<open>/\<close> on floats (the divisor is not zero).\<close>

definition fadd :: "real \<Rightarrow> real \<Rightarrow> real" where
  "fadd a b = fl (a + b)"

definition fsub :: "real \<Rightarrow> real \<Rightarrow> real" where
  "fsub a b = fl (a - b)"

definition fmul :: "real \<Rightarrow> real \<Rightarrow> real" where
  "fmul a b = fl (a * b)"

definition fdiv :: "real \<Rightarrow> real \<Rightarrow> real" where
  "fdiv a b = fl (a / b)"

subsection \<open>Exceptions\<close>

datatype error = ZeroDivisionError | KeyError | UnboundLocalError

definition bind_err :: "error + 'a \<Rightarrow> ('a \<Rightarrow> error + 'b) \<Rightarrow> error + 'b" where
  "bind_err m f = (case m of Inl e \<Rightarrow> Inl e | Inr x \<Rightarrow> f x)"

subsection \<open>Dictionaries in insertion order\<close>

text \<open>\<^verbatim>\<open>d[k] = v\<close>: an existing key keeps its position, a new key goes to the end.\<close>

fun dict_set :: "'k \<Rightarrow> 'v \<Rightarrow> ('k \<times> 'v) list \<Rightarrow> ('k \<times> 'v) list" where
  "dict_set k v [] = [(k, v)]"
| "dict_set k v (kv # d) = (if fst kv = k then (k, v) # d else kv # dict_set k v d)"

text \<open>\<^verbatim>\<open>del d[k]\<close>: raises KeyError when the key is absent.\<close>

definition dict_del :: "'k \<Rightarrow> ('k \<times> 'v) list \<Rightarrow> error + ('k \<times> 'v) list" where
  "dict_del k d =
     (if k \<in> set (map fst d) then Inr (filter (\<lambda>kv. fst kv \<noteq> k) d) else Inl KeyError)"

subsection \<open>Data\<close>

datatype side = Buy | Sell

text \<open>
  An order as \<^verbatim>\<open>create_order\<close> returns it: \<^verbatim>\<open>{'id': orderId, 'info': response}\<close>. Of the
  response the controller reads \<^verbatim>\<open>float(info['price'])\<close> and \<^verbatim>\<open>float(info['origQty'])\<close>.
\<close>

record order =
  oid :: int
  info_price :: real
  info_origQty :: real

record trader_config =
  symbol :: string
  leverage :: real
  total_margin :: real
  drop_to_buy :: real
  rise_to_sell :: real
  max_buy_times :: int
  test_mode :: bool
  api_key :: string
  api_secret :: string

text \<open>
  The exchange behind \<^verbatim>\<open>BinanceAPI\<close>. Its answers are not determined by the program, so
  each method is a function of a state of the outside world \<open>'w\<close> that it may change.
  \<^verbatim>\<open>create_order\<close> answers \<open>None\<close> where the Python method returns \<^verbatim>\<open>None\<close> (no symbol
  information, a transport error or a rejected order); \<^verbatim>\<open>check_order_status\<close> answers the
  triple \<^verbatim>\<open>(status, executedQty, remaining)\<close>, with status \<open>None\<close> for \<^verbatim>\<open>(None, 0, 0)\<close>;
  \<^verbatim>\<open>get_market_price\<close> answers \<open>None\<close> where the Python method falls off its end.
\<close>

record 'w binance_api =
  create_order :: "side \<Rightarrow> real \<Rightarrow> real \<Rightarrow> 'w \<Rightarrow> order option \<times> 'w"
  check_order_status :: "int \<Rightarrow> 'w \<Rightarrow> (string option \<times> real \<times> real) \<times> 'w"
  cancel_order :: "int \<Rightarrow> 'w \<Rightarrow> 'w"
  get_market_price :: "'w \<Rightarrow> real option \<times> 'w"

text \<open>One call of the exchange, with what it answered.\<close>

datatype call =
    CreateOrder side real real "order option"
  | CheckOrderStatus int "string option" real
  | CancelOrder int
  | GetMarketPrice "real option"

text \<open>
  The fields of \<^verbatim>\<open>OrderManager\<close> and \<^verbatim>\<open>GridTrader\<close> (the trader owns its one order
  manager), the state of the outside world, and the trace of the calls made so far.
\<close>

record 'w grid_trader =
  buy_orders :: "(int \<times> order) list"
  sell_orders :: "(int \<times> order) list"
  sell_order_filled :: bool
  sell_order_executed :: bool
  buy_order_filled :: bool
  base_price :: "real option"
  new_cycle_flag :: bool
  order_executed :: bool
  world :: 'w
  calls :: "call list"

definition init_trader :: "'w \<Rightarrow> 'w grid_trader" where
  "init_trader w =
     \<lparr>buy_orders = [], sell_orders = [], sell_order_filled = False,
      sell_order_executed = False, buy_order_filled = False, base_price = None,
      new_cycle_flag = True, order_executed = False, world = w, calls = []\<rparr>"

subsection \<open>Calls of the exchange\<close>

definition api_create_order ::
  "'w binance_api \<Rightarrow> side \<Rightarrow> real \<Rightarrow> real \<Rightarrow> 'w grid_trader \<Rightarrow> order option \<times> 'w grid_trader" where
  "api_create_order api sd p a s =
     (case create_order api sd p a (world s) of
        (r, w) \<Rightarrow> (r, s\<lparr>world := w, calls := calls s @ [CreateOrder sd p a r]\<rparr>))"

definition api_check_order_status ::
  "'w binance_api \<Rightarrow> int \<Rightarrow> 'w grid_trader \<Rightarrow> (string option \<times> real) \<times> 'w grid_trader" where
  "api_check_order_status api k s =
     (case check_order_status api k (world s) of
        ((st, filled, remaining), w) \<Rightarrow>
          ((st, filled), s\<lparr>world := w, calls := calls s @ [CheckOrderStatus k st filled]\<rparr>))"

definition api_cancel_order :: "'w binance_api \<Rightarrow> int \<Rightarrow> 'w grid_trader \<Rightarrow> 'w grid_trader" where
  "api_cancel_order api k s =
     s\<lparr>world := cancel_order api k (world s), calls := calls s @ [CancelOrder k]\<rparr>"

definition api_get_market_price ::
  "'w binance_api \<Rightarrow> 'w grid_trader \<Rightarrow> real option \<times> 'w grid_trader" where
  "api_get_market_price api s =
     (case get_market_price api (world s) of
        (r, w) \<Rightarrow> (r, s\<lparr>world := w, calls := calls s @ [GetMarketPrice r]\<rparr>))"

subsection \<open>OrderManager\<close>

text \<open>The loop of \<^verbatim>\<open>place_buy_orders\<close>: it returns at the first order that is not created.\<close>

fun place_buy_loop ::
  "'w binance_api \<Rightarrow> real \<Rightarrow> real list \<Rightarrow> 'w grid_trader \<Rightarrow> 'w grid_trader" where
  "place_buy_loop api single_amount [] s = s"
| "place_buy_loop api single_amount (p # ps) s =
     (case api_create_order api Buy p single_amount s of
        (None, s1) \<Rightarrow> s1
      | (Some ord, s1) \<Rightarrow>
          place_buy_loop api single_amount ps
            (s1\<lparr>buy_orders := dict_set (oid ord) ord (buy_orders s1)\<rparr>))"

definition buy_prices :: "trader_config \<Rightarrow> real \<Rightarrow> real list" where
  "buy_prices cfg bp =
     map (\<lambda>i. fmul bp (fsub 1 (fmul (drop_to_buy cfg) (real_of_int i))))
       [1..max_buy_times cfg]"

definition single_amount :: "trader_config \<Rightarrow> real \<Rightarrow> real" where
  "single_amount cfg bp =
     fdiv (fmul (fdiv (total_margin cfg) (real_of_int (max_buy_times cfg))) (leverage cfg)) bp"

text \<open>Both divisions raise ZeroDivisionError on a zero divisor.\<close>

definition place_buy_orders ::
  "'w binance_api \<Rightarrow> trader_config \<Rightarrow> real \<Rightarrow> 'w grid_trader \<Rightarrow> error + 'w grid_trader" where
  "place_buy_orders api cfg bp s =
     (if max_buy_times cfg = 0 then Inl ZeroDivisionError
      else if bp = 0 then Inl ZeroDivisionError
      else Inr (place_buy_loop api (single_amount cfg bp) (buy_prices cfg bp) s))"

text \<open>
  The \<^verbatim>\<open>while retry_count > 0 and sell_order is None\<close> loop: the first argument after the
  amount is \<^verbatim>\<open>retry_count\<close>; the loop is left with the order once one is created.
\<close>

fun sell_retry ::
  "'w binance_api \<Rightarrow> real \<Rightarrow> real \<Rightarrow> nat \<Rightarrow> 'w grid_trader \<Rightarrow> order option \<times> 'w grid_trader" where
  "sell_retry api sell_price amount 0 s = (None, s)"
| "sell_retry api sell_price amount (Suc retry_count) s =
     (case api_create_order api Sell sell_price amount s of
        (None, s1) \<Rightarrow> sell_retry api sell_price amount retry_count s1
      | (Some sell_order, s1) \<Rightarrow>
          (Some sell_order,
           s1\<lparr>sell_orders := dict_set (oid sell_order) sell_order (sell_orders s1),
              sell_order_executed := True\<rparr>))"

text \<open>The body of the loop of \<^verbatim>\<open>check_and_place_sell_orders\<close>, for one tracked buy order.\<close>

definition sell_for_buy ::
  "'w binance_api \<Rightarrow> trader_config \<Rightarrow> int \<times> order \<Rightarrow> 'w grid_trader \<Rightarrow> error + 'w grid_trader" where
  "sell_for_buy api cfg item s =
     (case api_check_order_status api (fst item) s of
        ((status, filled_amount), s1) \<Rightarrow>
          if status = Some ''FILLED'' \<or> status = Some ''PARTIALLY_FILLED'' then
            (let s2 = s1\<lparr>buy_order_filled := True\<rparr> in
             if info_origQty (snd item) = filled_amount then
               (case sell_retry api (fmul (info_price (snd item)) (fadd 1 (rise_to_sell cfg)))
                       filled_amount 3 s2 of
                  (None, s3) \<Rightarrow> Inr s3
                | (Some sell_order, s3) \<Rightarrow>
                    bind_err (dict_del (fst item) (buy_orders s3))
                      (\<lambda>d. Inr (s3\<lparr>buy_orders := d\<rparr>)))
             else Inr s2)
          else Inr s1)"

fun sell_loop ::
  "'w binance_api \<Rightarrow> trader_config \<Rightarrow> (int \<times> order) list \<Rightarrow> 'w grid_trader
     \<Rightarrow> error + 'w grid_trader" where
  "sell_loop api cfg [] s = Inr s"
| "sell_loop api cfg (item # items) s =
     bind_err (sell_for_buy api cfg item s) (sell_loop api cfg items)"

text \<open>The loop runs over \<^verbatim>\<open>list(self.buy_orders.items())\<close>, a copy made before it starts.\<close>

definition check_and_place_sell_orders ::
  "'w binance_api \<Rightarrow> trader_config \<Rightarrow> 'w grid_trader \<Rightarrow> error + 'w grid_trader" where
  "check_and_place_sell_orders api cfg s = sell_loop api cfg (buy_orders s) s"

fun cancel_loop :: "'w binance_api \<Rightarrow> int list \<Rightarrow> 'w grid_trader \<Rightarrow> error + 'w grid_trader" where
  "cancel_loop api [] s = Inr s"
| "cancel_loop api (k # ks) s =
     (let s1 = api_cancel_order api k s in
      bind_err (dict_del k (buy_orders s1))
        (\<lambda>d. cancel_loop api ks (s1\<lparr>buy_orders := d\<rparr>)))"

definition cancel_all_orders :: "'w binance_api \<Rightarrow> 'w grid_trader \<Rightarrow> error + 'w grid_trader" where
  "cancel_all_orders api s = cancel_loop api (map fst (buy_orders s)) s"

subsection \<open>GridTrader\<close>

definition start_trade_cycle ::
  "'w binance_api \<Rightarrow> trader_config \<Rightarrow> 'w grid_trader \<Rightarrow> error + 'w grid_trader" where
  "start_trade_cycle api cfg s =
     bind_err (cancel_all_orders api (s\<lparr>buy_order_filled := False\<rparr>))
       (\<lambda>s1. case api_get_market_price api s1 of
          (bp, s2) \<Rightarrow>
            (let s3 = s2\<lparr>base_price := bp\<rparr> in
             case bp of
               None \<Rightarrow> Inr s3
             | Some p \<Rightarrow> place_buy_orders api cfg p s3))"

text \<open>
  The list comprehension of \<^verbatim>\<open>check_price_rise\<close>: the status of every tracked buy order
  is asked, in order, before \<^verbatim>\<open>any\<close> looks at the answers.
\<close>

fun partial_flags ::
  "'w binance_api \<Rightarrow> int list \<Rightarrow> 'w grid_trader \<Rightarrow> bool list \<times> 'w grid_trader" where
  "partial_flags api [] s = ([], s)"
| "partial_flags api (k # ks) s =
     (case api_check_order_status api k s of
        ((status, filled_amount), s1) \<Rightarrow>
          (case partial_flags api ks s1 of
             (bs, s2) \<Rightarrow> ((status = Some ''PARTIALLY_FILLED'') # bs, s2)))"

definition check_price_rise ::
  "'w binance_api \<Rightarrow> trader_config \<Rightarrow> 'w grid_trader \<Rightarrow> 'w grid_trader" where
  "check_price_rise api cfg s =
     (case partial_flags api (map fst (buy_orders s)) s of
        (bs, s1) \<Rightarrow>
          (let partial_filled = (True \<in> set bs) in
           if \<not> buy_order_filled s1 \<and> \<not> partial_filled then
             (case api_get_market_price api s1 of
                (current_price, s2) \<Rightarrow>
                  (case current_price of
                     None \<Rightarrow> s2
                   | Some cp \<Rightarrow>
                       (case base_price s2 of
                          None \<Rightarrow> s2
                        | Some bp \<Rightarrow>
                            (let threshold_price = fmul bp (fadd 1 (rise_to_sell cfg)) in
                             if cp > threshold_price then s2\<lparr>new_cycle_flag := True\<rparr>
                             else s2))))
           else s1))"

text \<open>
  The first loop of \<^verbatim>\<open>check_and_replace_buy_orders\<close>. It carries
  \<^verbatim>\<open>all_sell_orders_filled\<close> and the loop variable \<^verbatim>\<open>order_id\<close>, which the code reads after
  the loop: \<open>None\<close> while the variable is unbound.
\<close>

fun sells_filled_loop ::
  "'w binance_api \<Rightarrow> (int \<times> order) list \<Rightarrow> bool \<Rightarrow> int option \<Rightarrow> 'w grid_trader
     \<Rightarrow> bool \<times> int option \<times> 'w grid_trader" where
  "sells_filled_loop api [] all_filled order_id s = (all_filled, order_id, s)"
| "sells_filled_loop api (item # items) all_filled order_id s =
     (case api_check_order_status api (fst item) s of
        ((status, filled_amount), s1) \<Rightarrow>
          sells_filled_loop api items
            (if status \<noteq> Some ''FILLED'' then False else all_filled) (Some (fst item)) s1)"

text \<open>The body of the second loop, for one tracked sell order.\<close>

definition replace_for_sell ::
  "'w binance_api \<Rightarrow> real \<Rightarrow> int \<times> order \<Rightarrow> 'w grid_trader \<Rightarrow> error + 'w grid_trader" where
  "replace_for_sell api drop_to_buy_ratio item s =
     (case api_check_order_status api (fst item) s of
        ((status, filled_amount), s1) \<Rightarrow>
          if status = Some ''FILLED'' then
            (let sell_price = info_price (snd item);
                 new_buy_price = fmul sell_price drop_to_buy_ratio;
                 buy_amount = info_origQty (snd item) in
             case api_create_order api Buy new_buy_price buy_amount s1 of
               (Some buy_order, s2) \<Rightarrow>
                 (let s3 = s2\<lparr>buy_orders := dict_set (oid buy_order) buy_order (buy_orders s2)\<rparr> in
                  bind_err (dict_del (fst item) (sell_orders s3))
                    (\<lambda>d. Inr (s3\<lparr>sell_orders := d\<rparr>)))
             | (None, s2) \<Rightarrow> Inr s2)
          else Inr s1)"

text \<open>The second loop, over a copy of the tracked sell orders.\<close>

fun replace_loop ::
  "'w binance_api \<Rightarrow> real \<Rightarrow> (int \<times> order) list \<Rightarrow> 'w grid_trader \<Rightarrow> error + 'w grid_trader" where
  "replace_loop api drop_to_buy_ratio [] s = Inr s"
| "replace_loop api drop_to_buy_ratio (item # items) s =
     bind_err (replace_for_sell api drop_to_buy_ratio item s)
       (replace_loop api drop_to_buy_ratio items)"

definition check_and_replace_buy_orders ::
  "'w binance_api \<Rightarrow> trader_config \<Rightarrow> 'w grid_trader \<Rightarrow> error + 'w grid_trader" where
  "check_and_replace_buy_orders api cfg s =
     (let drop_to_buy_ratio = fsub 1 (drop_to_buy cfg) in
      case sells_filled_loop api (sell_orders s) True None s of
        (all_sell_orders_filled, order_id, s1) \<Rightarrow>
          if all_sell_orders_filled \<and> length (sell_orders s1) > 0 then
            (case order_id of
               None \<Rightarrow> Inl UnboundLocalError
             | Some k \<Rightarrow>
                 bind_err (dict_del k (sell_orders s1))
                   (\<lambda>d. Inr (s1\<lparr>sell_orders := d, new_cycle_flag := True\<rparr>)))
          else replace_loop api drop_to_buy_ratio (sell_orders s1) s1)"

text \<open>One pass of the \<^verbatim>\<open>while True\<close> loop of \<^verbatim>\<open>trade\<close> (the sleep is not modelled).\<close>

definition trade_step ::
  "'w binance_api \<Rightarrow> trader_config \<Rightarrow> 'w grid_trader \<Rightarrow> error + 'w grid_trader" where
  "trade_step api cfg s =
     bind_err
       (if new_cycle_flag s \<or> base_price s = None then
          bind_err (start_trade_cycle api cfg s) (\<lambda>s1. Inr (s1\<lparr>new_cycle_flag := False\<rparr>))
        else Inr s)
       (\<lambda>s1. bind_err (check_and_place_sell_orders api cfg s1)
          (\<lambda>s2. bind_err (check_and_replace_buy_orders api cfg s2)
             (\<lambda>s3. Inr (check_price_rise api cfg s3))))"

text \<open>
  \<^verbatim>\<open>trade\<close> never returns unless an exception ends it; \<open>trade n\<close> is the state after \<open>n\<close>
  passes, or the exception that ended the loop before.
\<close>

fun trade :: "nat \<Rightarrow> 'w binance_api \<Rightarrow> trader_config \<Rightarrow> 'w grid_trader \<Rightarrow> error + 'w grid_trader" where
  "trade 0 api cfg s = Inr s"
| "trade (Suc n) api cfg s = bind_err (trade_step api cfg s) (trade n api cfg)"

subsection \<open>What the exchange reports, and what was submitted to it\<close>

text \<open>
  The statuses the exchange reports when the orders \<open>ks\<close> are asked one after the other
  from the world \<open>w\<close>, and the world after the last answer.
\<close>

fun poll_statuses :: "'w binance_api \<Rightarrow> int list \<Rightarrow> 'w \<Rightarrow> string option list \<times> 'w" where
  "poll_statuses api [] w = ([], w)"
| "poll_statuses api (k # ks) w =
     (case check_order_status api k w of
        ((st, filled, remaining), w1) \<Rightarrow>
          (case poll_statuses api ks w1 of (sts, w2) \<Rightarrow> (st # sts, w2)))"

text \<open>The order submissions among the calls of a trace, each with its answer.\<close>

fun submissions :: "call list \<Rightarrow> (side \<times> real \<times> real \<times> order option) list" where
  "submissions [] = []"
| "submissions (CreateOrder sd p a r # cs) = (sd, p, a, r) # submissions cs"
| "submissions (CheckOrderStatus k st filled # cs) = submissions cs"
| "submissions (CancelOrder k # cs) = submissions cs"
| "submissions (GetMarketPrice r # cs) = submissions cs"

text \<open>The dictionaries are well formed: no key occurs twice.\<close>

definition dicts_ok :: "'w grid_trader \<Rightarrow> bool" where
  "dicts_ok s = (distinct (map fst (buy_orders s)) \<and> distinct (map fst (sell_orders s)))"

subsection \<open>An exchange that answers from a script\<close>

text \<open>
  For running the controller on concrete inputs: the world is the list of the answers
  still to come. A call takes the next answer; an answer of the wrong kind, \<open>Failure\<close>
  or the end of the script is a failed call. Cancelling takes no answer.
\<close>

datatype reply = Created order | Status string real | Price real | Failure

definition scripted :: "reply list binance_api" where
  "scripted =
     \<lparr>create_order = (\<lambda>sd p a w. case w of Created ord # w1 \<Rightarrow> (Some ord, w1) | _ \<Rightarrow> (None, tl w)),
      check_order_status =
        (\<lambda>k w. case w of Status st filled # w1 \<Rightarrow> ((Some st, filled, 0), w1)
                 | _ \<Rightarrow> ((None, 0, 0), tl w)),
      cancel_order = (\<lambda>k w. w),
      get_market_price = (\<lambda>w. case w of Price p # w1 \<Rightarrow> (Some p, w1) | _ \<Rightarrow> (None, tl w))\<rparr>"

definition mk_order :: "int \<Rightarrow> real \<Rightarrow> real \<Rightarrow> order" where
  "mk_order k p q = \<lparr>oid = k, info_price = p, info_origQty = q\<rparr>"

definition mk_config :: "real \<Rightarrow> real \<Rightarrow> real \<Rightarrow> real \<Rightarrow> int \<Rightarrow> trader_config" where
  "mk_config lev margin d r n =
     \<lparr>symbol = ''BNBUSDT'', leverage = lev, total_margin = margin, drop_to_buy = d,
      rise_to_sell = r, max_buy_times = n, test_mode = True, api_key = ''xxx'',
      api_secret = ''xxx''\<rparr>"

text \<open>
  Two states agree on every field of the controller; the outside world and the trace of
  calls may differ.
\<close>

definition same_fields :: "'w grid_trader \<Rightarrow> 'w grid_trader \<Rightarrow> bool" where
  "same_fields s t =
     (buy_orders t = buy_orders s \<and> sell_orders t = sell_orders s \<and>
      sell_order_filled t = sell_order_filled s \<and>
      sell_order_executed t = sell_order_executed s \<and>
      buy_order_filled t = buy_order_filled s \<and> base_price t = base_price s \<and>
      new_cycle_flag t = new_cycle_flag s \<and> order_executed t = order_executed s)"

text \<open>Every tracked sell order reports FILLED when the sell orders are asked in order.\<close>

definition all_sells_filled :: "'w binance_api \<Rightarrow> 'w grid_trader \<Rightarrow> bool" where
  "all_sells_filled api s =
     list_all (\<lambda>st. st = Some ''FILLED'')
       (fst (poll_statuses api (map fst (sell_orders s)) (world s)))"

subsection \<open>Concrete runs\<close>

definition ex_config :: trader_config where
  "ex_config = mk_config 10 1000 (fl (1 / 100)) (fl (1 / 100)) 2"

text \<open>One sell order is tracked and is about to report FILLED.\<close>

definition ex_one_sell :: "reply list grid_trader" where
  "ex_one_sell =
     (init_trader [Status ''FILLED'' 1])
     \<lparr>sell_orders := [(11, mk_order 11 101 1)], new_cycle_flag := False,
      base_price := Some 100\<rparr>"

text \<open>No sell order is tracked and no new cycle is due.\<close>

definition ex_no_sells :: "reply list grid_trader" where
  "ex_no_sells = (init_trader [])\<lparr>new_cycle_flag := False, base_price := Some 100\<rparr>"

text \<open>
  Three sell orders are tracked and each is about to report FILLED; after that the
  exchange quotes 100 and accepts two buy orders.
\<close>

definition ex_three_sells :: "reply list grid_trader" where
  "ex_three_sells =
     (init_trader
        [Status ''FILLED'' 1, Status ''FILLED'' 1, Status ''FILLED'' 1,
         Price 100, Created (mk_order 21 99 50), Created (mk_order 22 98 50)])
     \<lparr>sell_orders := [(11, mk_order 11 101 1), (12, mk_order 12 102 1), (13, mk_order 13 103 1)],
      new_cycle_flag := False, base_price := Some 100\<rparr>"

text \<open>The state \<open>ex_three_sells\<close> after \<^verbatim>\<open>check_and_replace_buy_orders\<close>.\<close>

definition ex_two_sells :: "reply list grid_trader" where
  "ex_two_sells =
     ex_three_sells
     \<lparr>sell_orders := [(11, mk_order 11 101 1), (12, mk_order 12 102 1)],
      new_cycle_flag := True,
      world := [Price 100, Created (mk_order 21 99 50), Created (mk_order 22 98 50)],
      calls := [CheckOrderStatus 11 (Some ''FILLED'') 1, CheckOrderStatus 12 (Some ''FILLED'') 1,
                CheckOrderStatus 13 (Some ''FILLED'') 1]\<rparr>"

definition ex_rise_config :: trader_config where
  "ex_rise_config = mk_config 10 1000 (fl (1 / 1000)) (fl (5 / 1000)) 2"

text \<open>
  One buy order is tracked and still NEW, the base price is 250, and the exchange quotes
  251.25.
\<close>

definition ex_rise :: "reply list grid_trader" where
  "ex_rise =
     (init_trader [Status ''NEW'' 0, Price 251.25])
     \<lparr>buy_orders := [(1, mk_order 1 249 40)], base_price := Some 250, new_cycle_flag := False\<rparr>"

text \<open>
  The same, but the buy order has filled since fill detection ran, and the exchange
  quotes 300.
\<close>

definition ex_rise_filled :: "reply list grid_trader" where
  "ex_rise_filled =
     (init_trader [Status ''FILLED'' 40, Price 300])
     \<lparr>buy_orders := [(1, mk_order 1 249 40)], base_price := Some 250, new_cycle_flag := False\<rparr>"

text \<open>
  The submissions made between two states, the request of a submission (side, price,
  amount) and whether the exchange accepted it.
\<close>

definition new_submissions ::
  "'w grid_trader \<Rightarrow> 'w grid_trader \<Rightarrow> (side \<times> real \<times> real \<times> order option) list" where
  "new_submissions s t = drop (length (submissions (calls s))) (submissions (calls t))"

definition request :: "side \<times> real \<times> real \<times> order option \<Rightarrow> side \<times> real \<times> real" where
  "request x = (fst x, fst (snd x), fst (snd (snd x)))"

definition accepted :: "side \<times> real \<times> real \<times> order option \<Rightarrow> bool" where
  "accepted x = (snd (snd (snd x)) \<noteq> None)"

text \<open>The world after \<^verbatim>\<open>cancel_order\<close> has been called for each of the keys in turn.\<close>

definition world_after_cancel :: "'w binance_api \<Rightarrow> int list \<Rightarrow> 'w \<Rightarrow> 'w" where
  "world_after_cancel api ks w = foldl (\<lambda>w k. cancel_order api k w) w ks"

text \<open>
  A first cycle start with margin 1000, leverage 10, steps of 0.001 and two rungs; the
  exchange quotes 600 and accepts both buy orders.
\<close>

definition ex_ladder_config :: trader_config where
  "ex_ladder_config = mk_config 10 1000 (fl (1 / 1000)) (fl (1 / 1000)) 2"

definition ex_ladder :: "reply list grid_trader" where
  "ex_ladder =
     init_trader
       [Price 600, Created (mk_order 1 (fl 599.4) (fl 8.3)),
        Created (mk_order 2 (fl 598.8) (fl 8.3))]"

text \<open>
  A new cycle is due, one buy order is tracked, and the exchange does not answer the
  price query.
\<close>

definition ex_price_down :: "reply list grid_trader" where
  "ex_price_down =
     (init_trader [Failure])
     \<lparr>buy_orders := [(1, mk_order 1 99 50)], sell_orders := [(11, mk_order 11 101 1)],
      buy_order_filled := True, base_price := Some 100\<rparr>"




section \<open>Properties\<close>

subsection \<open>Dictionaries, traces and the loops\<close>

lemma binade_numeral [simp]:
  "binade (numeral k) x e =
     (if x < 2 ^ 52 then binade (pred_numeral k) (x * 2) (e - 1)
      else if 2 ^ 53 \<le> x then binade (pred_numeral k) (x / 2) (e + 1)
      else e)"
  by (simp add: numeral_eq_Suc)

lemmas fl_eval =
  fadd_def fsub_def fmul_def fdiv_def fl_def fl_pos_def round_even_def Let_def power_int_minus

lemma submissions_append [simp]: "submissions (xs @ ys) = submissions xs @ submissions ys"
  by (induction xs rule: submissions.induct) auto

lemma dict_set_keys: "set (map fst (dict_set k v d)) = insert k (set (map fst d))"
  by (induction d) auto

lemma dict_set_distinct: "distinct (map fst d) \<Longrightarrow> distinct (map fst (dict_set k v d))"
proof (induction d)
  case Nil then show ?case by simp
next
  case (Cons a d)
  have "fst a \<notin> set (map fst (dict_set k v d))" if "fst a \<noteq> k"
    using Cons.prems that by (simp add: dict_set_keys del: set_map)
  then show ?case using Cons by auto
qed

lemma filter_last_key:
  "distinct (map fst d) \<Longrightarrow> d \<noteq> [] \<Longrightarrow> filter (\<lambda>kv. fst kv \<noteq> fst (last d)) d = butlast d"
proof (induction d)
  case Nil then show ?case by simp
next
  case (Cons a d)
  show ?case
  proof (cases "d = []")
    case True then show ?thesis by simp
  next
    case False
    have "fst a \<noteq> fst (last d)" using Cons.prems False by (metis distinct.simps(2) last_in_set list.simps(9) image_eqI list.set_map)
    then show ?thesis using Cons False by simp
  qed
qed

lemma sells_filled_loop_flag:
  "fst (sells_filled_loop api items af oi s) =
     (af \<and> list_all (\<lambda>st. st = Some ''FILLED'') (fst (poll_statuses api (map fst items) (world s))))"
  by (induction items arbitrary: af oi s)
     (auto simp: api_check_order_status_def split: prod.splits)

lemma sells_filled_loop_var:
  "fst (snd (sells_filled_loop api items af oi s)) =
     (if items = [] then oi else Some (fst (last items)))"
  by (induction items arbitrary: af oi s)
     (auto simp: api_check_order_status_def split: prod.splits)

lemma sells_filled_loop_frame:
  "sells_filled_loop api items af oi s = (af', oi', s') \<Longrightarrow>
     same_fields s s' \<and> submissions (calls s') = submissions (calls s)"
proof (induction items arbitrary: af oi s)
  case Nil then show ?case by (simp add: same_fields_def)
next
  case (Cons it items)
  obtain st fl s1 where c: "api_check_order_status api (fst it) s = ((st, fl), s1)"
    by (metis surj_pair)
  then have f1: "same_fields s s1" "submissions (calls s1) = submissions (calls s)"
    by (auto simp: api_check_order_status_def same_fields_def split: prod.splits)
  from Cons.prems c have
    "sells_filled_loop api items (if st \<noteq> Some ''FILLED'' then False else af) (Some (fst it)) s1
       = (af', oi', s')"
    by simp
  from Cons.IH[OF this] f1 show ?case by (simp add: same_fields_def)
qed

lemma bind_err_Inr [simp]: "bind_err (Inr x) f = f x"
  by (simp add: bind_err_def)

lemma bind_err_Inl [simp]: "bind_err (Inl e) f = Inl e"
  by (simp add: bind_err_def)

lemma dict_del_in:
  "k \<in> fst ` set d \<Longrightarrow> dict_del k d = Inr (filter (\<lambda>kv. fst kv \<noteq> k) d)"
  by (simp add: dict_del_def)

lemma filter_keys_distinct:
  "distinct (map fst d) \<Longrightarrow> distinct (map fst (filter P d))"
  by (simp add: distinct_map_filter)

lemma filter_keys_rest:
  "fst ` set d - {k} \<subseteq> fst ` set (filter (\<lambda>kv. fst kv \<noteq> k) d)"
  by auto

lemma replace_for_sell_ok:
  assumes "fst item \<in> fst ` set (sell_orders s)"
  shows "\<exists>s'. replace_for_sell api r item s = Inr s' \<and>
           new_cycle_flag s' = new_cycle_flag s \<and> base_price s' = base_price s \<and>
           buy_order_filled s' = buy_order_filled s \<and>
           fst ` set (sell_orders s) - {fst item} \<subseteq> fst ` set (sell_orders s') \<and>
           (dicts_ok s \<longrightarrow> dicts_ok s')"
proof -
  obtain st fl s1 where c: "api_check_order_status api (fst item) s = ((st, fl), s1)"
    by (metis surj_pair)
  then have f1: "sell_orders s1 = sell_orders s" "buy_orders s1 = buy_orders s"
      "new_cycle_flag s1 = new_cycle_flag s" "base_price s1 = base_price s"
      "buy_order_filled s1 = buy_order_filled s"
    by (auto simp: api_check_order_status_def split: prod.splits)
  show ?thesis
  proof (cases "st = Some ''FILLED''")
    case False
    then have "replace_for_sell api r item s = Inr s1"
      by (simp add: replace_for_sell_def c)
    with f1 show ?thesis by (auto simp: dicts_ok_def)
  next
    case True
    obtain res s2 where
      b: "api_create_order api Buy (fmul (info_price (snd item)) r) (info_origQty (snd item)) s1 = (res, s2)"
      by (metis surj_pair)
    then have f2: "sell_orders s2 = sell_orders s" "buy_orders s2 = buy_orders s"
      "new_cycle_flag s2 = new_cycle_flag s" "base_price s2 = base_price s"
      "buy_order_filled s2 = buy_order_filled s"
      using f1 by (auto simp: api_create_order_def split: prod.splits)
    show ?thesis
    proof (cases res)
      case None
      then have "replace_for_sell api r item s = Inr s2"
        using True by (simp add: replace_for_sell_def c b)
      with f2 show ?thesis by (auto simp: dicts_ok_def)
    next
      case (Some bo)
      then have "replace_for_sell api r item s =
        Inr (s2\<lparr>buy_orders := dict_set (oid bo) bo (buy_orders s2),
                 sell_orders := filter (\<lambda>kv. fst kv \<noteq> fst item) (sell_orders s2)\<rparr>)"
        using True assms f2 by (simp add: replace_for_sell_def c b dict_del_in)
      with f2 filter_keys_rest[of "sell_orders s" "fst item"] show ?thesis
        by (simp add: dicts_ok_def dict_set_distinct filter_keys_distinct)
    qed
  qed
qed

lemma replace_loop_ok:
  assumes "distinct (map fst items)" and "fst ` set items \<subseteq> fst ` set (sell_orders s)"
  shows "\<exists>s'. replace_loop api r items s = Inr s' \<and>
           new_cycle_flag s' = new_cycle_flag s \<and> base_price s' = base_price s \<and>
           buy_order_filled s' = buy_order_filled s \<and>
           (dicts_ok s \<longrightarrow> dicts_ok s')"
  using assms
proof (induction items arbitrary: s)
  case Nil then show ?case by simp
next
  case (Cons item items)
  from Cons.prems have tr: "fst item \<in> fst ` set (sell_orders s)" by simp
  from replace_for_sell_ok[OF tr, of api r] obtain s1 where
    s1: "replace_for_sell api r item s = Inr s1"
      and f1: "new_cycle_flag s1 = new_cycle_flag s" "base_price s1 = base_price s"
      "buy_order_filled s1 = buy_order_filled s"
      and k1: "fst ` set (sell_orders s) - {fst item} \<subseteq> fst ` set (sell_orders s1)"
      and d1: "dicts_ok s \<longrightarrow> dicts_ok s1"
    by (elim exE conjE)
  have d: "distinct (map fst items)" using Cons.prems by simp
  have ni: "fst item \<notin> fst ` set items" using Cons.prems(1) by simp
  have sub0: "fst ` set items \<subseteq> fst ` set (sell_orders s)" using Cons.prems(2) by simp
  have sub: "fst ` set items \<subseteq> fst ` set (sell_orders s1)"
  proof
    fix x assume x: "x \<in> fst ` set items"
    with ni have "x \<noteq> fst item" by metis
    moreover from x sub0 have "x \<in> fst ` set (sell_orders s)" by (rule subsetD[rotated])
    ultimately have "x \<in> fst ` set (sell_orders s) - {fst item}" by simp
    with k1 show "x \<in> fst ` set (sell_orders s1)" by (rule subsetD)
  qed
  from Cons.IH[OF d sub] obtain s' where
    s': "replace_loop api r items s1 = Inr s'"
      and f': "new_cycle_flag s' = new_cycle_flag s1" "base_price s' = base_price s1"
      "buy_order_filled s' = buy_order_filled s1"
      and d': "dicts_ok s1 \<longrightarrow> dicts_ok s'"
    by (elim exE conjE)
  have "replace_loop api r (item # items) s = Inr s'" using s1 s' by simp
  with f1 f' d1 d' show ?case by simp
qed

lemma cancel_loop_sells:
  "cancel_loop api ks s = Inr t \<Longrightarrow> sell_orders t = sell_orders s"
proof (induction ks arbitrary: s)
  case Nil then show ?case by simp
next
  case (Cons k ks)
  show ?case
  proof (cases "dict_del k (buy_orders (api_cancel_order api k s))")
    case (Inl e)
    with Cons.prems show ?thesis by (simp add: Let_def)
  next
    case (Inr d)
    with Cons.prems have
      "cancel_loop api ks ((api_cancel_order api k s)\<lparr>buy_orders := d\<rparr>) = Inr t"
      by (simp add: Let_def)
    from Cons.IH[OF this] show ?thesis by (simp add: api_cancel_order_def)
  qed
qed

lemma place_buy_loop_sells:
  "sell_orders (place_buy_loop api a ps s) = sell_orders s"
  by (induction ps arbitrary: s)
     (auto simp: api_create_order_def split: prod.splits option.splits)

lemma start_trade_cycle_sells:
  assumes "start_trade_cycle api cfg s = Inr t"
  shows "sell_orders t = sell_orders s"
proof -
  from assms obtain s1 where
    c: "cancel_all_orders api (s\<lparr>buy_order_filled := False\<rparr>) = Inr s1"
    by (cases "cancel_all_orders api (s\<lparr>buy_order_filled := False\<rparr>)")
       (simp_all add: start_trade_cycle_def)
  then have s1: "sell_orders s1 = sell_orders s"
    using cancel_loop_sells[of api _ "s\<lparr>buy_order_filled := False\<rparr>" s1]
    by (simp add: cancel_all_orders_def)
  obtain bp s2 where g: "api_get_market_price api s1 = (bp, s2)" by (metis surj_pair)
  then have s2: "sell_orders s2 = sell_orders s1"
    by (auto simp: api_get_market_price_def split: prod.splits)
  show ?thesis
  proof (cases bp)
    case None
    with assms c g have "t = s2\<lparr>base_price := None\<rparr>"
      by (simp add: start_trade_cycle_def)
    with s1 s2 show ?thesis by simp
  next
    case (Some p)
    with assms c g have "place_buy_orders api cfg p (s2\<lparr>base_price := Some p\<rparr>) = Inr t"
      by (simp add: start_trade_cycle_def)
    then have "sell_orders t = sell_orders (s2\<lparr>base_price := Some p\<rparr>)"
      by (auto simp: place_buy_orders_def place_buy_loop_sells split: if_splits)
    with s1 s2 show ?thesis by simp
  qed
qed

lemma completion_branch:
  assumes d: "distinct (map fst (sell_orders s))"
    and ne: "sell_orders s \<noteq> []"
    and fl: "list_all (\<lambda>st. st = Some ''FILLED'')
               (fst (poll_statuses api (map fst (sell_orders s)) (world s)))"
  shows "\<exists>s1. sells_filled_loop api (sell_orders s) True None s
                 = (True, Some (fst (last (sell_orders s))), s1) \<and>
           check_and_replace_buy_orders api cfg s =
             Inr (s1\<lparr>sell_orders := butlast (sell_orders s), new_cycle_flag := True\<rparr>) \<and>
           same_fields s s1 \<and> submissions (calls s1) = submissions (calls s)"
proof -
  obtain af oi s1 where l: "sells_filled_loop api (sell_orders s) True None s = (af, oi, s1)"
    by (metis surj_pair)
  have af: "af = True" using sells_filled_loop_flag[of api "sell_orders s" True None s] l fl
    by simp
  have oi: "oi = Some (fst (last (sell_orders s)))"
    using sells_filled_loop_var[of api "sell_orders s" True None s] l ne by simp
  from sells_filled_loop_frame[OF l] have fr: "same_fields s s1"
    and sb: "submissions (calls s1) = submissions (calls s)" by simp_all
  then have so: "sell_orders s1 = sell_orders s" by (simp add: same_fields_def)
  have "fst (last (sell_orders s)) \<in> fst ` set (sell_orders s)" using ne by simp
  then have "dict_del (fst (last (sell_orders s))) (sell_orders s) = Inr (butlast (sell_orders s))"
    using filter_last_key[OF d ne] by (simp add: dict_del_in)
  then have "check_and_replace_buy_orders api cfg s =
      Inr (s1\<lparr>sell_orders := butlast (sell_orders s), new_cycle_flag := True\<rparr>)"
    using l af oi so ne by (simp add: check_and_replace_buy_orders_def Let_def)
  with l af oi fr sb show ?thesis by simp
qed

lemma partial_flags_frame:
  "partial_flags api ks s = (bs, s') \<Longrightarrow>
     same_fields s s' \<and> submissions (calls s') = submissions (calls s)"
proof (induction ks arbitrary: s bs s')
  case Nil then show ?case by (simp add: same_fields_def)
next
  case (Cons k ks)
  obtain st fl s1 where c: "api_check_order_status api k s = ((st, fl), s1)"
    by (metis surj_pair)
  then have f1: "same_fields s s1" "submissions (calls s1) = submissions (calls s)"
    by (auto simp: api_check_order_status_def same_fields_def split: prod.splits)
  obtain bs1 s2 where p: "partial_flags api ks s1 = (bs1, s2)" by (metis surj_pair)
  with Cons.prems c have "s' = s2" by simp
  with Cons.IH[OF p] f1 show ?case by (simp add: same_fields_def)
qed

lemma check_price_rise_submissions:
  "submissions (calls (check_price_rise api cfg s)) = submissions (calls s)"
proof -
  obtain bs s1 where p: "partial_flags api (map fst (buy_orders s)) s = (bs, s1)"
    by (metis surj_pair)
  from partial_flags_frame[OF p] have s1: "submissions (calls s1) = submissions (calls s)"
    by simp
  obtain cp s2 where g: "api_get_market_price api s1 = (cp, s2)" by (metis surj_pair)
  then have s2: "submissions (calls s2) = submissions (calls s1)"
    by (auto simp: api_get_market_price_def split: prod.splits)
  show ?thesis using p g s1 s2
    by (simp add: check_price_rise_def Let_def split: option.splits)
qed

subsection \<open>Cycle completion\<close>

text \<open>
  Claim C1, as amended. Called with the new-cycle flag down, \<^verbatim>\<open>check_and_replace_buy_orders\<close>
  raises the flag if and only if at least one sell order is tracked and every tracked sell
  order reports FILLED. When it does, the buy orders are untouched and no order is
  submitted, neither by this call nor by the price check that ends the pass, and a sell
  order that is the only one tracked is dropped. Which entry goes when several sell orders
  are tracked is not part of this statement.
\<close>

theorem cycle_completion_iff:
  assumes d: "distinct (map fst (sell_orders s))" and nf: "\<not> new_cycle_flag s"
  shows "\<exists>s'. check_and_replace_buy_orders api cfg s = Inr s' \<and>
           (new_cycle_flag s' \<longleftrightarrow> sell_orders s \<noteq> [] \<and> all_sells_filled api s) \<and>
           (new_cycle_flag s' \<longrightarrow>
              buy_orders s' = buy_orders s \<and>
              submissions (calls s') = submissions (calls s) \<and>
              submissions (calls (check_price_rise api cfg s')) = submissions (calls s) \<and>
              (length (sell_orders s) = 1 \<longrightarrow> sell_orders s' = []))"
proof (cases "sell_orders s \<noteq> [] \<and> all_sells_filled api s")
  case True
  then have ne: "sell_orders s \<noteq> []"
    and fl: "list_all (\<lambda>st. st = Some ''FILLED'')
               (fst (poll_statuses api (map fst (sell_orders s)) (world s)))"
    by (simp_all add: all_sells_filled_def)
  from completion_branch[OF d ne fl, of cfg] obtain s1 where
    r: "check_and_replace_buy_orders api cfg s =
          Inr (s1\<lparr>sell_orders := butlast (sell_orders s), new_cycle_flag := True\<rparr>)"
    and fr: "same_fields s s1" and sb: "submissions (calls s1) = submissions (calls s)"
    by (elim exE conjE)
  from fr have b: "buy_orders s1 = buy_orders s" by (simp add: same_fields_def)
  have one: "length (sell_orders s) = 1 \<longrightarrow> butlast (sell_orders s) = []"
    by (cases "sell_orders s") auto
  from r sb b one True show ?thesis by (simp add: check_price_rise_submissions)
next
  case False
  obtain af oi s1 where l: "sells_filled_loop api (sell_orders s) True None s = (af, oi, s1)"
    by (metis surj_pair)
  have af: "af = all_sells_filled api s"
    using sells_filled_loop_flag[of api "sell_orders s" True None s] l
    by (simp add: all_sells_filled_def)
  from sells_filled_loop_frame[OF l] have fr: "same_fields s s1" by simp
  then have so: "sell_orders s1 = sell_orders s" and fg: "new_cycle_flag s1 = new_cycle_flag s"
    by (simp_all add: same_fields_def)
  from False af have c: "\<not> (af \<and> 0 < length (sell_orders s))" by auto
  have e: "check_and_replace_buy_orders api cfg s =
      replace_loop api (fsub 1 (drop_to_buy cfg)) (sell_orders s) s1"
    unfolding check_and_replace_buy_orders_def Let_def l prod.case so if_not_P[OF c] ..
  have "fst ` set (sell_orders s) \<subseteq> fst ` set (sell_orders s1)" using so by simp
  from replace_loop_ok[OF d this, of api "fsub 1 (drop_to_buy cfg)"] obtain s' where
    "replace_loop api (fsub 1 (drop_to_buy cfg)) (sell_orders s) s1 = Inr s'"
    "new_cycle_flag s' = new_cycle_flag s1"
    by (elim exE conjE)
  with e fg nf False show ?thesis by simp
qed

text \<open>One tracked sell order, FILLED: the flag goes up and the sell order is dropped.\<close>

theorem cycle_completion_iff_witness:
  "distinct (map fst (sell_orders ex_one_sell)) \<and> \<not> new_cycle_flag ex_one_sell \<and>
   sell_orders ex_one_sell \<noteq> [] \<and> all_sells_filled scripted ex_one_sell \<and>
   length (sell_orders ex_one_sell) = 1 \<and>
   (\<exists>s'. check_and_replace_buy_orders scripted ex_config ex_one_sell = Inr s' \<and>
      new_cycle_flag s' \<and> sell_orders s' = [] \<and>
      buy_orders s' = [] \<and> submissions (calls s') = [])"
proof -
  have h1: "distinct (map fst (sell_orders ex_one_sell))"
    by (simp add: ex_one_sell_def init_trader_def)
  have h2: "\<not> new_cycle_flag ex_one_sell"
    by (simp add: ex_one_sell_def init_trader_def)
  have h3: "sell_orders ex_one_sell \<noteq> []"
    by (simp add: ex_one_sell_def init_trader_def)
  have h4: "all_sells_filled scripted ex_one_sell"
    by (simp add: all_sells_filled_def ex_one_sell_def init_trader_def scripted_def)
  have v: "length (sell_orders ex_one_sell) = 1"
    "buy_orders ex_one_sell = []" "submissions (calls ex_one_sell) = []"
    by (simp_all add: ex_one_sell_def init_trader_def)
  from cycle_completion_iff[OF h1 h2, of scripted ex_config] h3 h4 v
  show ?thesis using h1 h2 by auto
qed

text \<open>
  Claim C1 as stated fails in two ways. When no sell order is tracked, every tracked sell
  order is FILLED, vacuously, and the flag stays down. And when three sell orders are
  tracked and all are FILLED, the flag goes up but the sell orders 11 and 12, both
  completed, stay tracked.
\<close>

theorem cycle_completion_vacuous_counterexample:
  "all_sells_filled scripted ex_no_sells \<and> \<not> new_cycle_flag ex_no_sells \<and>
   check_and_replace_buy_orders scripted ex_config ex_no_sells = Inr ex_no_sells \<and>
   all_sells_filled scripted ex_three_sells \<and>
   check_and_replace_buy_orders scripted ex_config ex_three_sells = Inr ex_two_sells \<and>
   new_cycle_flag ex_two_sells \<and> map fst (sell_orders ex_two_sells) = [11, 12]"
  by (simp add: all_sells_filled_def ex_no_sells_def init_trader_def
        check_and_replace_buy_orders_def ex_three_sells_def ex_two_sells_def
        scripted_def api_check_order_status_def dict_del_def)

subsection \<open>What cycle completion removes\<close>

text \<open>
  Claim C10. When at least two sell orders are tracked and all of them report FILLED,
  \<^verbatim>\<open>check_and_replace_buy_orders\<close> deletes one entry of the sell dictionary, the one under the
  key the first loop bound last (the last in insertion order); the other entries stay, and
  a following \<^verbatim>\<open>start_trade_cycle\<close> leaves them tracked too.
\<close>

theorem completion_drops_only_last_sell:
  assumes d: "distinct (map fst (sell_orders s))"
    and n: "1 < length (sell_orders s)"
    and fl: "all_sells_filled api s"
  shows "\<exists>s'. check_and_replace_buy_orders api cfg s = Inr s' \<and>
           fst (snd (sells_filled_loop api (sell_orders s) True None s)) =
             Some (fst (last (sell_orders s))) \<and>
           sell_orders s' =
             filter (\<lambda>kv. fst kv \<noteq> fst (last (sell_orders s))) (sell_orders s) \<and>
           sell_orders s' = butlast (sell_orders s) \<and>
           length (sell_orders s') = length (sell_orders s) - 1 \<and>
           (\<forall>t. start_trade_cycle api cfg s' = Inr t \<longrightarrow>
              sell_orders t = butlast (sell_orders s))"
proof -
  from n have ne: "sell_orders s \<noteq> []" by auto
  from fl have fl': "list_all (\<lambda>st. st = Some ''FILLED'')
      (fst (poll_statuses api (map fst (sell_orders s)) (world s)))"
    by (simp add: all_sells_filled_def)
  from completion_branch[OF d ne fl', of cfg] obtain s1 where
    l: "sells_filled_loop api (sell_orders s) True None s
          = (True, Some (fst (last (sell_orders s))), s1)"
    and r: "check_and_replace_buy_orders api cfg s =
          Inr (s1\<lparr>sell_orders := butlast (sell_orders s), new_cycle_flag := True\<rparr>)"
    by (elim exE conjE)
  let ?s' = "s1\<lparr>sell_orders := butlast (sell_orders s), new_cycle_flag := True\<rparr>"
  have a: "sell_orders ?s' = butlast (sell_orders s)" by simp
  have b: "\<forall>t. start_trade_cycle api cfg ?s' = Inr t \<longrightarrow> sell_orders t = butlast (sell_orders s)"
    using start_trade_cycle_sells[of api cfg ?s'] by simp
  from r l a b filter_last_key[OF d ne] show ?thesis by simp
qed

text \<open>
  Three tracked sell orders, all FILLED: the third is dropped, and the cycle start that
  follows places two buy orders and keeps the two filled sell orders.
\<close>

theorem completion_drops_only_last_sell_witness:
  "distinct (map fst (sell_orders ex_three_sells)) \<and> 1 < length (sell_orders ex_three_sells) \<and>
   all_sells_filled scripted ex_three_sells \<and>
   check_and_replace_buy_orders scripted ex_config ex_three_sells = Inr ex_two_sells \<and>
   (\<exists>t. start_trade_cycle scripted ex_config ex_two_sells = Inr t \<and>
      sell_orders t = [(11, mk_order 11 101 1), (12, mk_order 12 102 1)] \<and>
      map fst (buy_orders t) = [21, 22])"
proof -
  have h1: "distinct (map fst (sell_orders ex_three_sells))"
    by (simp add: ex_three_sells_def init_trader_def)
  have h2: "1 < length (sell_orders ex_three_sells)"
    by (simp add: ex_three_sells_def init_trader_def)
  have h3: "all_sells_filled scripted ex_three_sells"
    by (simp add: all_sells_filled_def ex_three_sells_def init_trader_def scripted_def)
  have e: "check_and_replace_buy_orders scripted ex_config ex_three_sells = Inr ex_two_sells"
    by (simp add: check_and_replace_buy_orders_def ex_three_sells_def ex_two_sells_def
          init_trader_def scripted_def api_check_order_status_def dict_del_def)
  have st: "\<exists>t. start_trade_cycle scripted ex_config ex_two_sells = Inr t \<and>
      map fst (buy_orders t) = [21, 22]"
    by (simp add: start_trade_cycle_def cancel_all_orders_def ex_two_sells_def
          ex_three_sells_def init_trader_def scripted_def api_get_market_price_def
          place_buy_orders_def ex_config_def mk_config_def buy_prices_def single_amount_def
          api_create_order_def mk_order_def upto.simps fl_eval)
  have v: "butlast (sell_orders ex_three_sells) = [(11, mk_order 11 101 1), (12, mk_order 12 102 1)]"
    by (simp add: ex_three_sells_def init_trader_def)
  from completion_drops_only_last_sell[OF h1 h2 h3, of ex_config] e v st
  show ?thesis using h1 h2 h3 by auto
qed

subsection \<open>The price-rise restart\<close>

lemma partial_flags_result:
  "fst (partial_flags api ks s) =
     map (\<lambda>st. st = Some ''PARTIALLY_FILLED'') (fst (poll_statuses api ks (world s)))"
  "world (snd (partial_flags api ks s)) = snd (poll_statuses api ks (world s))"
  by (induction ks arbitrary: s)
     (simp_all add: api_check_order_status_def case_prod_beta)

text \<open>
  Claim C7, as amended. \<^verbatim>\<open>check_price_rise\<close> raises the new-cycle flag exactly when the
  flag \<^verbatim>\<open>buy_order_filled\<close> is down, no tracked buy order reports PARTIALLY_FILLED when
  this check asks, and the price then fetched is strictly above the float
  \<^verbatim>\<open>base_price * (1 + rise_to_sell)\<close>. Otherwise the flag is left as it was: in
  particular when \<^verbatim>\<open>buy_order_filled\<close> is up or a buy order is partially filled, whatever
  the price. \<^verbatim>\<open>buy_order_filled\<close> is what fill detection has seen since the cycle
  start; what the buy orders report to this check beyond PARTIALLY_FILLED plays no part.
\<close>

theorem price_rise_sets_flag_iff:
  "new_cycle_flag (check_price_rise api cfg s) \<longleftrightarrow>
     new_cycle_flag s \<or>
     (\<not> buy_order_filled s \<and>
      Some ''PARTIALLY_FILLED'' \<notin> set (fst (poll_statuses api (map fst (buy_orders s)) (world s))) \<and>
      (\<exists>cp bp.
         fst (get_market_price api
               (snd (poll_statuses api (map fst (buy_orders s)) (world s)))) = Some cp \<and>
         base_price s = Some bp \<and> cp > fmul bp (fadd 1 (rise_to_sell cfg))))"
proof -
  obtain bs s1 where p: "partial_flags api (map fst (buy_orders s)) s = (bs, s1)"
    by (metis surj_pair)
  from partial_flags_frame[OF p] have fr: "same_fields s s1" by simp
  then have f: "buy_order_filled s1 = buy_order_filled s" "base_price s1 = base_price s"
    "new_cycle_flag s1 = new_cycle_flag s"
    by (simp_all add: same_fields_def)
  have bs: "bs = map (\<lambda>st. st = Some ''PARTIALLY_FILLED'')
      (fst (poll_statuses api (map fst (buy_orders s)) (world s)))"
    using partial_flags_result(1)[of api "map fst (buy_orders s)" s] p by simp
  have w: "world s1 = snd (poll_statuses api (map fst (buy_orders s)) (world s))"
    using partial_flags_result(2)[of api "map fst (buy_orders s)" s] p by simp
  have pf: "True \<in> set bs \<longleftrightarrow>
      Some ''PARTIALLY_FILLED'' \<in> set (fst (poll_statuses api (map fst (buy_orders s)) (world s)))"
    unfolding bs by auto
  obtain cp s2 where g: "api_get_market_price api s1 = (cp, s2)" by (metis surj_pair)
  then have g2: "cp = fst (get_market_price api (world s1))"
    "base_price s2 = base_price s1" "new_cycle_flag s2 = new_cycle_flag s1"
    by (auto simp: api_get_market_price_def split: prod.splits)
  show ?thesis
  proof (cases "\<not> buy_order_filled s1 \<and> True \<notin> set bs")
    case False
    then have "check_price_rise api cfg s = s1"
      using p by (auto simp: check_price_rise_def Let_def)
    with False f pf show ?thesis by auto
  next
    case True
    show ?thesis
    proof (cases cp)
      case None
      then have "check_price_rise api cfg s = s2"
        using True p g by (simp add: check_price_rise_def Let_def)
      with None True f pf g2 w show ?thesis by auto
    next
      case (Some c)
      show ?thesis
      proof (cases "base_price s")
        case None
        then have "check_price_rise api cfg s = s2"
          using True p g Some g2 f by (simp add: check_price_rise_def Let_def)
        with None True f pf g2 w show ?thesis by auto
      next
        case (Some b)
        then have "check_price_rise api cfg s =
            (if c > fmul b (fadd 1 (rise_to_sell cfg)) then s2\<lparr>new_cycle_flag := True\<rparr>
             else s2)"
          using True p g \<open>cp = Some c\<close> g2 f by (simp add: check_price_rise_def Let_def)
        with Some \<open>cp = Some c\<close> True f pf g2 w show ?thesis by auto
      qed
    qed
  qed
qed

text \<open>
  A buy order still NEW, base price 250, rise 0.005, market price 251.25. The float
  \<^verbatim>\<open>250 * (1 + 0.005)\<close> is just below 251.25, so the flag goes up.
\<close>

theorem price_rise_sets_flag_witness:
  "new_cycle_flag (check_price_rise scripted ex_rise_config ex_rise) \<and>
   \<not> new_cycle_flag ex_rise \<and> \<not> buy_order_filled ex_rise \<and>
   fst (poll_statuses scripted (map fst (buy_orders ex_rise)) (world ex_rise)) = [Some ''NEW''] \<and>
   fmul 250 (fadd 1 (rise_to_sell ex_rise_config)) < 251.25"
proof -
  have a: "\<not> new_cycle_flag ex_rise" "\<not> buy_order_filled ex_rise"
    "fst (poll_statuses scripted (map fst (buy_orders ex_rise)) (world ex_rise)) = [Some ''NEW'']"
    "snd (poll_statuses scripted (map fst (buy_orders ex_rise)) (world ex_rise)) = [Price 251.25]"
    "base_price ex_rise = Some 250"
    by (simp_all add: ex_rise_def init_trader_def scripted_def)
  have b: "fst (get_market_price scripted [Price 251.25]) = Some 251.25"
    by (simp add: scripted_def)
  have c: "fmul 250 (fadd 1 (rise_to_sell ex_rise_config)) < 251.25"
    by (simp add: ex_rise_config_def mk_config_def fl_eval)
  have ex: "\<exists>cp bp.
      fst (get_market_price scripted
            (snd (poll_statuses scripted (map fst (buy_orders ex_rise)) (world ex_rise)))) = Some cp \<and>
      base_price ex_rise = Some bp \<and> cp > fmul bp (fadd 1 (rise_to_sell ex_rise_config))"
    unfolding a(4,5) using b c by blast
  have pf: "Some ''PARTIALLY_FILLED'' \<notin>
      set (fst (poll_statuses scripted (map fst (buy_orders ex_rise)) (world ex_rise)))"
    unfolding a(3) by simp
  from price_rise_sets_flag_iff[of scripted ex_rise_config ex_rise] a(2) pf ex
  have up: "new_cycle_flag (check_price_rise scripted ex_rise_config ex_rise)" by blast
  show ?thesis using up a(1) a(2) a(3) c by blast
qed

text \<open>
  Claim C7 as stated fails when a buy order fills after fill detection has run: here the
  only tracked buy order reports FILLED to this check, \<^verbatim>\<open>buy_order_filled\<close> is still
  down, the price 300 is above the threshold, and the flag goes up.
\<close>

theorem price_rise_after_fill_counterexample:
  "fst (poll_statuses scripted (map fst (buy_orders ex_rise_filled)) (world ex_rise_filled))
     = [Some ''FILLED''] \<and>
   \<not> new_cycle_flag ex_rise_filled \<and>
   new_cycle_flag (check_price_rise scripted ex_rise_config ex_rise_filled)"
  by (simp add: ex_rise_filled_def init_trader_def scripted_def check_price_rise_def
        api_check_order_status_def api_get_market_price_def ex_rise_config_def mk_config_def
        fl_eval)

subsection \<open>The buy ladder of a cycle start\<close>

lemma cancel_loop_all:
  assumes "distinct ks" and "set ks \<subseteq> fst ` set (buy_orders s)"
  shows "\<exists>t. cancel_loop api ks s = Inr t \<and>
           buy_orders t = filter (\<lambda>kv. fst kv \<notin> set ks) (buy_orders s) \<and>
           world t = world_after_cancel api ks (world s) \<and>
           submissions (calls t) = submissions (calls s) \<and>
           same_fields (s\<lparr>buy_orders := buy_orders t\<rparr>) t"
  using assms
proof (induction ks arbitrary: s)
  case Nil then show ?case by (simp add: world_after_cancel_def same_fields_def)
next
  case (Cons k ks)
  let ?s1 = "api_cancel_order api k s"
  let ?s2 = "?s1\<lparr>buy_orders := filter (\<lambda>kv. fst kv \<noteq> k) (buy_orders s)\<rparr>"
  have b1: "buy_orders ?s1 = buy_orders s" by (simp add: api_cancel_order_def)
  have kin: "k \<in> fst ` set (buy_orders s)" using Cons.prems(2) by simp
  then have dd: "dict_del k (buy_orders ?s1) = Inr (filter (\<lambda>kv. fst kv \<noteq> k) (buy_orders s))"
    using b1 by (simp add: dict_del_in)
  have e: "cancel_loop api (k # ks) s = cancel_loop api ks ?s2"
    using dd b1 by (simp add: Let_def)
  have d: "distinct ks" and kn: "k \<notin> set ks" using Cons.prems(1) by simp_all
  have sub: "set ks \<subseteq> fst ` set (buy_orders ?s2)"
  proof
    fix x assume x: "x \<in> set ks"
    with kn have "x \<noteq> k" by metis
    moreover from x Cons.prems(2) have "x \<in> fst ` set (buy_orders s)" by auto
    ultimately show "x \<in> fst ` set (buy_orders ?s2)" by auto
  qed
  from Cons.IH[OF d sub] obtain t where
    t: "cancel_loop api ks ?s2 = Inr t"
    and bt: "buy_orders t = filter (\<lambda>kv. fst kv \<notin> set ks) (buy_orders ?s2)"
    and wt: "world t = world_after_cancel api ks (world ?s2)"
    and st: "submissions (calls t) = submissions (calls ?s2)"
    and ft: "same_fields (?s2\<lparr>buy_orders := buy_orders t\<rparr>) t"
    by (elim exE conjE)
  have "buy_orders t = filter (\<lambda>kv. fst kv \<notin> set (k # ks)) (buy_orders s)"
    using bt by (simp add: conj_commute)
  moreover have "world t = world_after_cancel api (k # ks) (world s)"
    using wt by (simp add: world_after_cancel_def api_cancel_order_def)
  moreover have "submissions (calls t) = submissions (calls s)"
    using st by (simp add: api_cancel_order_def)
  moreover have "same_fields (s\<lparr>buy_orders := buy_orders t\<rparr>) t"
    using ft by (simp add: same_fields_def api_cancel_order_def)
  ultimately show ?case using e t by simp
qed

lemma cancel_all_orders_ok:
  assumes "distinct (map fst (buy_orders s))"
  shows "\<exists>t. cancel_all_orders api s = Inr t \<and> buy_orders t = [] \<and>
           world t = world_after_cancel api (map fst (buy_orders s)) (world s) \<and>
           submissions (calls t) = submissions (calls s) \<and>
           same_fields (s\<lparr>buy_orders := []\<rparr>) t"
proof -
  have sub: "set (map fst (buy_orders s)) \<subseteq> fst ` set (buy_orders s)" by simp
  from cancel_loop_all[OF assms sub, of api] obtain t where
    t: "cancel_loop api (map fst (buy_orders s)) s = Inr t"
    and bt: "buy_orders t = filter (\<lambda>kv. fst kv \<notin> set (map fst (buy_orders s))) (buy_orders s)"
    and r: "world t = world_after_cancel api (map fst (buy_orders s)) (world s)"
      "submissions (calls t) = submissions (calls s)"
      "same_fields (s\<lparr>buy_orders := buy_orders t\<rparr>) t"
    by (elim exE conjE)
  have "buy_orders t = []" unfolding bt by (simp add: filter_False)
  with t r show ?thesis by (simp add: cancel_all_orders_def)
qed

lemma place_buy_loop_trace:
  "\<exists>rs. length rs \<le> length ps \<and>
      submissions (calls (place_buy_loop api a ps s)) =
        submissions (calls s) @ map (\<lambda>pr. (Buy, fst pr, a, snd pr)) (zip ps rs) \<and>
      (length rs < length ps \<longrightarrow> \<not> list_all (\<lambda>r. r \<noteq> None) rs)"
proof (induction ps arbitrary: s)
  case Nil then show ?case by simp
next
  case (Cons p ps)
  obtain r s1 where c: "api_create_order api Buy p a s = (r, s1)" by (metis surj_pair)
  then have s1: "submissions (calls s1) = submissions (calls s) @ [(Buy, p, a, r)]"
    by (auto simp: api_create_order_def split: prod.splits)
  show ?case
  proof (cases r)
    case None
    then have "place_buy_loop api a (p # ps) s = s1" using c by simp
    with s1 None show ?thesis by (intro exI[of _ "[None]"]) simp
  next
    case (Some ord)
    let ?s2 = "s1\<lparr>buy_orders := dict_set (oid ord) ord (buy_orders s1)\<rparr>"
    from Cons.IH[of ?s2] obtain rs where
      rs: "length rs \<le> length ps"
      "submissions (calls (place_buy_loop api a ps ?s2)) =
        submissions (calls ?s2) @ map (\<lambda>pr. (Buy, fst pr, a, snd pr)) (zip ps rs)"
      "length rs < length ps \<longrightarrow> \<not> list_all (\<lambda>r. r \<noteq> None) rs"
      by (elim exE conjE)
    have "place_buy_loop api a (p # ps) s = place_buy_loop api a ps ?s2"
      using c Some by simp
    with rs s1 Some show ?thesis by (intro exI[of _ "Some ord # rs"]) simp
  qed
qed

subsection \<open>The rungs of the ladder\<close>

lemma place_buy_loop_base_price:
  "base_price (place_buy_loop api a ps s) = base_price s"
  by (induction ps arbitrary: s)
     (auto simp: api_create_order_def split: prod.splits option.splits)

lemma accepted_zip:
  assumes "list_all accepted (map (\<lambda>pr. (Buy, fst pr, a, snd pr)) (zip ps rs))"
    and "length rs \<le> length ps"
  shows "list_all (\<lambda>r. r \<noteq> None) rs"
  using assms
proof (induction rs arbitrary: ps)
  case Nil then show ?case by simp
next
  case (Cons r rs)
  then obtain p ps' where ps: "ps = p # ps'" by (cases ps) auto
  with Cons.prems have "r \<noteq> None" by (simp add: accepted_def)
  moreover from Cons.IH[of ps'] Cons.prems ps have "list_all (\<lambda>r. r \<noteq> None) rs" by simp
  ultimately show ?case by simp
qed

lemma request_zip:
  "length rs = length ps \<Longrightarrow>
   map request (map (\<lambda>pr. (Buy, fst pr, a, snd pr)) (zip ps rs)) = map (\<lambda>p. (Buy, p, a)) ps"
proof (induction ps arbitrary: rs)
  case Nil then show ?case by simp
next
  case (Cons p ps)
  then obtain r rs' where "rs = r # rs'" by (cases rs) auto
  with Cons show ?case by (simp add: request_def)
qed

text \<open>
  Claim C2. A cycle start that fetches the base price \<open>P\<close> returns normally, and when none
  of its submissions fails it submits exactly \<open>max_buy_times\<close> buy orders: the \<open>i\<close>-th at
  the float \<^verbatim>\<open>P * (1 - drop_to_buy * i)\<close>, \<open>i = 1..N\<close>, each for the float
  \<^verbatim>\<open>(total_margin / N) * leverage / P\<close>. The prices are those handed to
  \<^verbatim>\<open>create_order\<close>, before its rounding to the tick size.
\<close>

theorem cycle_start_ladder:
  assumes d: "distinct (map fst (buy_orders s))"
    and n: "0 < max_buy_times cfg"
    and pr: "fst (get_market_price api
               (world_after_cancel api (map fst (buy_orders s)) (world s))) = Some P"
    and p0: "P \<noteq> 0"
  shows "\<exists>s'. start_trade_cycle api cfg s = Inr s' \<and> base_price s' = Some P \<and>
           (list_all accepted (new_submissions s s') \<longrightarrow>
              map request (new_submissions s s') =
                map (\<lambda>i. (Buy, fmul P (fsub 1 (fmul (drop_to_buy cfg) (real_of_int i))),
                          fdiv (fmul (fdiv (total_margin cfg) (real_of_int (max_buy_times cfg)))
                                  (leverage cfg)) P))
                  [1..max_buy_times cfg] \<and>
              length (new_submissions s s') = nat (max_buy_times cfg))"
proof -
  let ?s0 = "s\<lparr>buy_order_filled := False\<rparr>"
  have d0: "distinct (map fst (buy_orders ?s0))" using d by simp
  from cancel_all_orders_ok[OF d0, of api] obtain t1 where
    c: "cancel_all_orders api ?s0 = Inr t1"
    and w1: "world t1 = world_after_cancel api (map fst (buy_orders s)) (world s)"
    and sb1: "submissions (calls t1) = submissions (calls s)"
    by (elim exE conjE) simp
  obtain bp t2 where g: "api_get_market_price api t1 = (bp, t2)" by (metis surj_pair)
  then have bp: "bp = Some P" and sb2: "submissions (calls t2) = submissions (calls s)"
    using pr w1 sb1 by (auto simp: api_get_market_price_def split: prod.splits)
  let ?s3 = "t2\<lparr>base_price := Some P\<rparr>"
  let ?a = "single_amount cfg P"
  let ?ps = "buy_prices cfg P"
  let ?s' = "place_buy_loop api ?a ?ps ?s3"
  have e: "start_trade_cycle api cfg s = Inr ?s'"
    using c g bp n p0 by (simp add: start_trade_cycle_def place_buy_orders_def)
  have b: "base_price ?s' = Some P" by (simp add: place_buy_loop_base_price)
  from place_buy_loop_trace[of ?ps api ?a ?s3] obtain rs where
    le: "length rs \<le> length ?ps"
    and tr: "submissions (calls ?s') =
        submissions (calls ?s3) @ map (\<lambda>pr. (Buy, fst pr, ?a, snd pr)) (zip ?ps rs)"
    and sh: "length rs < length ?ps \<longrightarrow> \<not> list_all (\<lambda>r. r \<noteq> None) rs"
    by (elim exE conjE)
  have ns: "new_submissions s ?s' = map (\<lambda>pr. (Buy, fst pr, ?a, snd pr)) (zip ?ps rs)"
    using tr sb2 by (simp add: new_submissions_def)
  have len: "length ?ps = nat (max_buy_times cfg)" by (simp add: buy_prices_def)
  have m: "map (\<lambda>p. (Buy, p, ?a)) ?ps =
      map (\<lambda>i. (Buy, fmul P (fsub 1 (fmul (drop_to_buy cfg) (real_of_int i))),
                fdiv (fmul (fdiv (total_margin cfg) (real_of_int (max_buy_times cfg)))
                        (leverage cfg)) P))
        [1..max_buy_times cfg]"
    by (simp add: buy_prices_def single_amount_def)
  have "map request (new_submissions s ?s') =
          map (\<lambda>i. (Buy, fmul P (fsub 1 (fmul (drop_to_buy cfg) (real_of_int i))),
                    fdiv (fmul (fdiv (total_margin cfg) (real_of_int (max_buy_times cfg)))
                            (leverage cfg)) P))
            [1..max_buy_times cfg] \<and>
        length (new_submissions s ?s') = nat (max_buy_times cfg)"
    if acc: "list_all accepted (new_submissions s ?s')"
  proof -
    from acc have "list_all accepted (map (\<lambda>pr. (Buy, fst pr, ?a, snd pr)) (zip ?ps rs))"
      unfolding ns .
    from accepted_zip[OF this le] have "list_all (\<lambda>r. r \<noteq> None) rs" .
    with sh le have eq: "length rs = length ?ps" by auto
    from request_zip[OF eq, of ?a] m ns eq len show ?thesis by simp
  qed
  with e b show ?thesis by (intro exI[of _ ?s']) simp
qed

text \<open>
  The scenario of the specification: base price 600, steps of 0.001, two rungs. The buy
  orders go out at the floats 599.4 and 598.8, each for the float nearest to 25 / 3.
\<close>

theorem cycle_start_ladder_witness:
  "distinct (map fst (buy_orders ex_ladder)) \<and> 0 < max_buy_times ex_ladder_config \<and>
   (\<exists>s'. start_trade_cycle scripted ex_ladder_config ex_ladder = Inr s' \<and>
      base_price s' = Some 600 \<and>
      list_all accepted (new_submissions ex_ladder s') \<and>
      map request (new_submissions ex_ladder s') =
        [(Buy, fl 599.4, fl (25 / 3)), (Buy, fl 598.8, fl (25 / 3))] \<and>
      map fst (buy_orders s') = [1, 2])"
proof -
  have h1: "distinct (map fst (buy_orders ex_ladder))"
    by (simp add: ex_ladder_def init_trader_def)
  have h2: "0 < max_buy_times ex_ladder_config"
    by (simp add: ex_ladder_config_def mk_config_def)
  have h3: "fst (get_market_price scripted
      (world_after_cancel scripted (map fst (buy_orders ex_ladder)) (world ex_ladder))) = Some 600"
    by (simp add: ex_ladder_def init_trader_def world_after_cancel_def scripted_def)
  have h4: "(600::real) \<noteq> 0" by simp
  have ev: "\<exists>s'. start_trade_cycle scripted ex_ladder_config ex_ladder = Inr s' \<and>
      list_all accepted (new_submissions ex_ladder s') \<and> map fst (buy_orders s') = [1, 2]"
    by (simp add: start_trade_cycle_def cancel_all_orders_def ex_ladder_def init_trader_def
          scripted_def api_get_market_price_def place_buy_orders_def ex_ladder_config_def
          mk_config_def buy_prices_def single_amount_def api_create_order_def mk_order_def
          upto.simps new_submissions_def accepted_def fl_eval)
  have l: "map (\<lambda>i. (Buy, fmul 600 (fsub 1 (fmul (drop_to_buy ex_ladder_config) (real_of_int i))),
             fdiv (fmul (fdiv (total_margin ex_ladder_config)
                           (real_of_int (max_buy_times ex_ladder_config)))
                     (leverage ex_ladder_config)) 600)) [1..max_buy_times ex_ladder_config]
        = [(Buy, fl 599.4, fl (25 / 3)), (Buy, fl 598.8, fl (25 / 3))]"
    by (simp add: ex_ladder_config_def mk_config_def upto.simps fl_eval)
  from cycle_start_ladder[OF h1 h2 h3 h4] ev l show ?thesis using h1 h2 by auto
qed

subsection \<open>A cycle start without a market price\<close>

lemma sell_retry_base_price:
  "base_price (snd (sell_retry api p a n s)) = base_price s"
  by (induction n arbitrary: s)
     (auto simp: api_create_order_def split: prod.splits option.splits)

lemma sell_for_buy_base_price:
  assumes "sell_for_buy api cfg item s = Inr t"
  shows "base_price t = base_price s"
proof -
  obtain st fa s1 where c: "api_check_order_status api (fst item) s = ((st, fa), s1)"
    by (metis surj_pair)
  then have b1: "base_price s1 = base_price s"
    by (auto simp: api_check_order_status_def split: prod.splits)
  let ?s2 = "s1\<lparr>buy_order_filled := True\<rparr>"
  obtain r s3 where
    q: "sell_retry api (fmul (info_price (snd item)) (fadd 1 (rise_to_sell cfg))) fa 3 ?s2 = (r, s3)"
    by (metis surj_pair)
  have b3: "base_price s3 = base_price s"
    using sell_retry_base_price[of api "fmul (info_price (snd item)) (fadd 1 (rise_to_sell cfg))"
        fa 3 ?s2] q b1 by simp
  from assms c q b1 b3 show ?thesis
    by (auto simp: sell_for_buy_def Let_def bind_err_def
             split: if_splits option.splits sum.splits)
qed

lemma sell_loop_base_price:
  "sell_loop api cfg items s = Inr t \<Longrightarrow> base_price t = base_price s"
proof (induction items arbitrary: s)
  case Nil then show ?case by simp
next
  case (Cons item items)
  then obtain s1 where a: "sell_for_buy api cfg item s = Inr s1"
    and b: "sell_loop api cfg items s1 = Inr t"
    by (cases "sell_for_buy api cfg item s") simp_all
  from Cons.IH[OF b] sell_for_buy_base_price[OF a] show ?case by simp
qed

lemma replace_for_sell_base_price:
  assumes "replace_for_sell api r item s = Inr t"
  shows "base_price t = base_price s"
proof -
  obtain st fa s1 where c: "api_check_order_status api (fst item) s = ((st, fa), s1)"
    by (metis surj_pair)
  then have b1: "base_price s1 = base_price s"
    by (auto simp: api_check_order_status_def split: prod.splits)
  obtain res s2 where
    q: "api_create_order api Buy (fmul (info_price (snd item)) r) (info_origQty (snd item)) s1
          = (res, s2)"
    by (metis surj_pair)
  then have b2: "base_price s2 = base_price s"
    using b1 by (auto simp: api_create_order_def split: prod.splits)
  from assms c q b1 b2 show ?thesis
    by (auto simp: replace_for_sell_def Let_def bind_err_def
             split: if_splits option.splits sum.splits)
qed

lemma replace_loop_base_price:
  "replace_loop api r items s = Inr t \<Longrightarrow> base_price t = base_price s"
proof (induction items arbitrary: s)
  case Nil then show ?case by simp
next
  case (Cons item items)
  then obtain s1 where a: "replace_for_sell api r item s = Inr s1"
    and b: "replace_loop api r items s1 = Inr t"
    by (cases "replace_for_sell api r item s") simp_all
  from Cons.IH[OF b] replace_for_sell_base_price[OF a] show ?case by simp
qed

lemma check_and_replace_base_price:
  assumes "check_and_replace_buy_orders api cfg s = Inr t"
  shows "base_price t = base_price s"
proof -
  obtain af oi s1 where l: "sells_filled_loop api (sell_orders s) True None s = (af, oi, s1)"
    by (metis surj_pair)
  from sells_filled_loop_frame[OF l] have b1: "base_price s1 = base_price s"
    by (simp add: same_fields_def)
  show ?thesis
  proof (cases "af \<and> 0 < length (sell_orders s1)")
    case True
    with assms l b1 show ?thesis
      by (auto simp: check_and_replace_buy_orders_def Let_def bind_err_def
               split: option.splits sum.splits)
  next
    case False
    with assms l have "replace_loop api (fsub 1 (drop_to_buy cfg)) (sell_orders s1) s1 = Inr t"
      by (auto simp: check_and_replace_buy_orders_def Let_def)
    from replace_loop_base_price[OF this] b1 show ?thesis by simp
  qed
qed

lemma check_price_rise_base_price:
  "base_price (check_price_rise api cfg s) = base_price s"
proof -
  obtain bs s1 where p: "partial_flags api (map fst (buy_orders s)) s = (bs, s1)"
    by (metis surj_pair)
  from partial_flags_frame[OF p] have b1: "base_price s1 = base_price s"
    by (simp add: same_fields_def)
  obtain cp s2 where g: "api_get_market_price api s1 = (cp, s2)" by (metis surj_pair)
  then have b2: "base_price s2 = base_price s1"
    by (auto simp: api_get_market_price_def split: prod.splits)
  show ?thesis using p g b1 b2
    by (simp add: check_price_rise_def Let_def split: option.splits)
qed

text \<open>
  Claim C9, as amended. When the price query of a cycle start fails, the cycle start
  returns without submitting an order and leaves \<^verbatim>\<open>base_price\<close> unset, and \<^verbatim>\<open>base_price\<close>
  is still unset at the end of the pass, so the next pass starts the cycle again. The
  state is not left as it was: every tracked buy order has been cancelled and dropped and
  \<^verbatim>\<open>buy_order_filled\<close> is down; the sell orders are untouched.
\<close>

theorem price_unavailable_cycle_start:
  assumes d: "distinct (map fst (buy_orders s))"
    and due: "new_cycle_flag s \<or> base_price s = None"
    and pr: "fst (get_market_price api
               (world_after_cancel api (map fst (buy_orders s)) (world s))) = None"
  shows "(\<exists>s'. start_trade_cycle api cfg s = Inr s' \<and> base_price s' = None \<and>
            buy_orders s' = [] \<and> \<not> buy_order_filled s' \<and>
            sell_orders s' = sell_orders s \<and> new_submissions s s' = []) \<and>
         (\<forall>t. trade_step api cfg s = Inr t \<longrightarrow> base_price t = None)"
proof -
  let ?s0 = "s\<lparr>buy_order_filled := False\<rparr>"
  have d0: "distinct (map fst (buy_orders ?s0))" using d by simp
  from cancel_all_orders_ok[OF d0, of api] obtain t1 where
    c: "cancel_all_orders api ?s0 = Inr t1"
    and b1: "buy_orders t1 = []"
    and w1: "world t1 = world_after_cancel api (map fst (buy_orders s)) (world s)"
    and sb1: "submissions (calls t1) = submissions (calls s)"
    and f1: "same_fields (?s0\<lparr>buy_orders := []\<rparr>) t1"
    by (elim exE conjE) simp
  obtain bp t2 where g: "api_get_market_price api t1 = (bp, t2)" by (metis surj_pair)
  then have bp: "bp = None" and sb2: "submissions (calls t2) = submissions (calls s)"
    and f2: "buy_orders t2 = []" "sell_orders t2 = sell_orders s" "\<not> buy_order_filled t2"
    using pr w1 sb1 b1 f1
    by (auto simp: api_get_market_price_def same_fields_def split: prod.splits)
  let ?s' = "t2\<lparr>base_price := None\<rparr>"
  have e: "start_trade_cycle api cfg s = Inr ?s'"
    using c g bp by (simp add: start_trade_cycle_def)
  have first: "\<exists>s'. start_trade_cycle api cfg s = Inr s' \<and> base_price s' = None \<and>
            buy_orders s' = [] \<and> \<not> buy_order_filled s' \<and>
            sell_orders s' = sell_orders s \<and> new_submissions s s' = []"
    using e f2 sb2 by (intro exI[of _ ?s']) (simp add: new_submissions_def)
  have second: "base_price t = None" if t: "trade_step api cfg s = Inr t" for t
  proof -
    let ?s1 = "?s'\<lparr>new_cycle_flag := False\<rparr>"
    from t due e obtain s2 s3 where
      a: "check_and_place_sell_orders api cfg ?s1 = Inr s2"
      and b: "check_and_replace_buy_orders api cfg s2 = Inr s3"
      and r: "t = check_price_rise api cfg s3"
      by (auto simp: trade_step_def bind_err_def split: sum.splits)
    from a have "base_price s2 = None"
      using sell_loop_base_price[of api cfg "buy_orders ?s1" ?s1 s2]
      by (simp add: check_and_place_sell_orders_def)
    with check_and_replace_base_price[OF b] have "base_price s3 = None" by simp
    with r show ?thesis by (simp add: check_price_rise_base_price)
  qed
  from first second show ?thesis by blast
qed

text \<open>
  A cycle start with one tracked buy order and no answer to the price query: the pass
  ends with \<^verbatim>\<open>base_price\<close> unset and the buy order gone.
\<close>

theorem price_unavailable_cycle_start_witness:
  "distinct (map fst (buy_orders ex_price_down)) \<and> new_cycle_flag ex_price_down \<and>
   fst (get_market_price scripted
         (world_after_cancel scripted (map fst (buy_orders ex_price_down))
            (world ex_price_down))) = None \<and>
   (\<exists>s'. start_trade_cycle scripted ex_config ex_price_down = Inr s' \<and>
      base_price s' = None \<and> buy_orders s' = [] \<and>
      sell_orders s' = [(11, mk_order 11 101 1)]) \<and>
   (\<exists>t. trade_step scripted ex_config ex_price_down = Inr t \<and> base_price t = None)"
proof -
  have h1: "distinct (map fst (buy_orders ex_price_down))"
    by (simp add: ex_price_down_def init_trader_def)
  have h2: "new_cycle_flag ex_price_down"
    by (simp add: ex_price_down_def init_trader_def)
  then have h2': "new_cycle_flag ex_price_down \<or> base_price ex_price_down = None" by simp
  have h3: "fst (get_market_price scripted
         (world_after_cancel scripted (map fst (buy_orders ex_price_down))
            (world ex_price_down))) = None"
    by (simp add: ex_price_down_def init_trader_def world_after_cancel_def scripted_def)
  have v: "sell_orders ex_price_down = [(11, mk_order 11 101 1)]"
    by (simp add: ex_price_down_def init_trader_def)
  have ev: "\<exists>t. trade_step scripted ex_config ex_price_down = Inr t"
    by (simp add: trade_step_def start_trade_cycle_def cancel_all_orders_def
          ex_price_down_def init_trader_def scripted_def api_cancel_order_def
          api_get_market_price_def dict_del_def check_and_place_sell_orders_def
          check_and_replace_buy_orders_def api_check_order_status_def replace_for_sell_def
          check_price_rise_def)
  from price_unavailable_cycle_start[OF h1 h2' h3, of ex_config] v ev
  show ?thesis using h1 h2 h3 by auto
qed

text \<open>
  Claim C9 as stated fails: the state is not left unchanged. The tracked buy order is
  dropped and \<^verbatim>\<open>buy_order_filled\<close> is reset although no price was fetched.
\<close>

theorem price_unavailable_changes_state_counterexample:
  "buy_orders ex_price_down = [(1, mk_order 1 99 50)] \<and> buy_order_filled ex_price_down \<and>
   map_sum id buy_orders (start_trade_cycle scripted ex_config ex_price_down) = Inr [] \<and>
   map_sum id buy_order_filled (start_trade_cycle scripted ex_config ex_price_down) = Inr False \<and>
   map_sum id base_price (start_trade_cycle scripted ex_config ex_price_down) = Inr None"
  by (simp add: start_trade_cycle_def cancel_all_orders_def ex_price_down_def init_trader_def
        scripted_def api_cancel_order_def api_get_market_price_def dict_del_def)

subsection \<open>Converting a filled buy order into a sell order\<close>






subsection \<open>What a conversion submits and creates\<close>




subsection \<open>Replenishing a filled sell order\<close>

lemma bind_err_assoc:
  "bind_err (bind_err m f) g = bind_err m (\<lambda>x. bind_err (f x) g)"
  by (cases m) simp_all

lemma replace_loop_append:
  "replace_loop api r (xs @ ys) s = bind_err (replace_loop api r xs s) (replace_loop api r ys)"
proof (induction xs arbitrary: s)
  case Nil
  show ?case by simp
next
  case (Cons a xs)
  show ?case by (cases "replace_for_sell api r a s") (simp_all add: Cons.IH)
qed

lemma replace_for_sell_result:
  assumes tr: "fst item \<in> fst ` set (sell_orders s)"
    and q: "check_order_status api (fst item) (world s) = ((st, fa, rm), w1)"
    and c: "create_order api Buy (fmul (info_price (snd item)) r) (info_origQty (snd item)) w1
              = (res, w2)"
  shows "\<exists>s'. replace_for_sell api r item s = Inr s' \<and>
      (if st = Some ''FILLED'' then
         new_submissions s s' =
           [(Buy, fmul (info_price (snd item)) r, info_origQty (snd item), res)] \<and>
         (case res of
            Some bo \<Rightarrow>
              buy_orders s' = dict_set (oid bo) bo (buy_orders s) \<and>
              sell_orders s' = filter (\<lambda>kv. fst kv \<noteq> fst item) (sell_orders s)
          | None \<Rightarrow> buy_orders s' = buy_orders s \<and> sell_orders s' = sell_orders s)
       else new_submissions s s' = [] \<and> buy_orders s' = buy_orders s \<and>
            sell_orders s' = sell_orders s)"
proof -
  let ?s1 = "s\<lparr>world := w1, calls := calls s @ [CheckOrderStatus (fst item) st fa]\<rparr>"
  have k: "api_check_order_status api (fst item) s = ((st, fa), ?s1)"
    using q by (simp add: api_check_order_status_def)
  show ?thesis
  proof (cases "st = Some ''FILLED''")
    case False
    then have "replace_for_sell api r item s = Inr ?s1"
      by (simp add: replace_for_sell_def k)
    with False show ?thesis by (simp add: new_submissions_def)
  next
    case True
    let ?P = "fmul (info_price (snd item)) r"
    let ?Q = "info_origQty (snd item)"
    let ?s2 = "?s1\<lparr>world := w2, calls := calls ?s1 @ [CreateOrder Buy ?P ?Q res]\<rparr>"
    have b: "api_create_order api Buy ?P ?Q ?s1 = (res, ?s2)"
      using c by (simp add: api_create_order_def)
    show ?thesis
    proof (cases res)
      case None
      then have "replace_for_sell api r item s = Inr ?s2"
        using True b by (simp add: replace_for_sell_def k)
      with True None show ?thesis by (simp add: new_submissions_def)
    next
      case (Some bo)
      have dd: "dict_del (fst item) (sell_orders s)
                  = Inr (filter (\<lambda>kv. fst kv \<noteq> fst item) (sell_orders s))"
        using tr by (rule dict_del_in)
      have "replace_for_sell api r item s =
        Inr (?s2\<lparr>buy_orders := dict_set (oid bo) bo (buy_orders s),
                  sell_orders := filter (\<lambda>kv. fst kv \<noteq> fst item) (sell_orders s)\<rparr>)"
        using True b Some dd by (simp add: replace_for_sell_def k)
      with True Some show ?thesis by (simp add: new_submissions_def)
    qed
  qed
qed

text \<open>
  The body of the loop removes no sell order but its own and no buy order at all.
\<close>

lemma replace_for_sell_keeps:
  assumes tr: "fst item \<in> fst ` set (sell_orders s)"
  shows "\<exists>s'. replace_for_sell api r item s = Inr s' \<and>
      set (sell_orders s') \<subseteq> set (sell_orders s) \<and>
      (\<forall>kv \<in> set (sell_orders s). fst kv \<noteq> fst item \<longrightarrow> kv \<in> set (sell_orders s')) \<and>
      fst ` set (buy_orders s) \<subseteq> fst ` set (buy_orders s')"
proof -
  obtain st fa rm w1 where q: "check_order_status api (fst item) (world s) = ((st, fa, rm), w1)"
    by (metis surj_pair)
  obtain res w2 where
    c: "create_order api Buy (fmul (info_price (snd item)) r) (info_origQty (snd item)) w1
          = (res, w2)"
    by (metis surj_pair)
  from replace_for_sell_result[OF tr q c] obtain s' where
    e: "replace_for_sell api r item s = Inr s'"
    and p: "if st = Some ''FILLED'' then
         new_submissions s s' =
           [(Buy, fmul (info_price (snd item)) r, info_origQty (snd item), res)] \<and>
         (case res of
            Some bo \<Rightarrow>
              buy_orders s' = dict_set (oid bo) bo (buy_orders s) \<and>
              sell_orders s' = filter (\<lambda>kv. fst kv \<noteq> fst item) (sell_orders s)
          | None \<Rightarrow> buy_orders s' = buy_orders s \<and> sell_orders s' = sell_orders s)
       else new_submissions s s' = [] \<and> buy_orders s' = buy_orders s \<and>
            sell_orders s' = sell_orders s"
    by (elim exE conjE)
  have "(buy_orders s' = buy_orders s \<and> sell_orders s' = sell_orders s) \<or>
        (\<exists>bo. buy_orders s' = dict_set (oid bo) bo (buy_orders s) \<and>
              sell_orders s' = filter (\<lambda>kv. fst kv \<noteq> fst item) (sell_orders s))"
    using p by (cases "st = Some ''FILLED''"; cases res) auto
  then show ?thesis
  proof
    assume "buy_orders s' = buy_orders s \<and> sell_orders s' = sell_orders s"
    with e show ?thesis by simp
  next
    assume "\<exists>bo. buy_orders s' = dict_set (oid bo) bo (buy_orders s) \<and>
              sell_orders s' = filter (\<lambda>kv. fst kv \<noteq> fst item) (sell_orders s)"
    then obtain bo where b: "buy_orders s' = dict_set (oid bo) bo (buy_orders s)"
      and f: "sell_orders s' = filter (\<lambda>kv. fst kv \<noteq> fst item) (sell_orders s)"
      by (elim exE conjE)
    have "fst ` set (buy_orders s') = insert (oid bo) (fst ` set (buy_orders s))"
      unfolding b using dict_set_keys[of "oid bo" bo "buy_orders s"] by simp
    then have "fst ` set (buy_orders s) \<subseteq> fst ` set (buy_orders s')" by (simp add: subset_insertI)
    with e f show ?thesis by simp
  qed
qed

lemma replace_loop_keeps:
  assumes "distinct (map fst items)" and "set items \<subseteq> set (sell_orders s)"
  shows "\<exists>s'. replace_loop api r items s = Inr s' \<and>
      set (sell_orders s') \<subseteq> set (sell_orders s) \<and>
      (\<forall>kv \<in> set (sell_orders s). fst kv \<notin> fst ` set items \<longrightarrow> kv \<in> set (sell_orders s')) \<and>
      fst ` set (buy_orders s) \<subseteq> fst ` set (buy_orders s')"
  using assms
proof (induction items arbitrary: s)
  case Nil then show ?case by simp
next
  case (Cons item items)
  from Cons.prems(2) have itm: "item \<in> set (sell_orders s)" by simp
  then have tr: "fst item \<in> fst ` set (sell_orders s)" by (rule imageI)
  from replace_for_sell_keeps[OF tr, of api r] obtain s1 where
    e1: "replace_for_sell api r item s = Inr s1"
    and a1: "set (sell_orders s1) \<subseteq> set (sell_orders s)"
    and k1: "\<forall>kv \<in> set (sell_orders s). fst kv \<noteq> fst item \<longrightarrow> kv \<in> set (sell_orders s1)"
    and b1: "fst ` set (buy_orders s) \<subseteq> fst ` set (buy_orders s1)"
    by (elim exE conjE)
  have d: "distinct (map fst items)" using Cons.prems(1) by simp
  have ni: "fst item \<notin> fst ` set items" using Cons.prems(1) by simp
  have sub: "set items \<subseteq> set (sell_orders s1)"
  proof
    fix x assume x: "x \<in> set items"
    then have "fst x \<in> fst ` set items" by (rule imageI)
    with ni have ne: "fst x \<noteq> fst item" by metis
    from x Cons.prems(2) have "x \<in> set (sell_orders s)" by auto
    with k1 ne show "x \<in> set (sell_orders s1)" by simp
  qed
  from Cons.IH[OF d sub] obtain s' where
    e': "replace_loop api r items s1 = Inr s'"
    and a': "set (sell_orders s') \<subseteq> set (sell_orders s1)"
    and k': "\<forall>kv \<in> set (sell_orders s1). fst kv \<notin> fst ` set items \<longrightarrow> kv \<in> set (sell_orders s')"
    and b': "fst ` set (buy_orders s1) \<subseteq> fst ` set (buy_orders s')"
    by (elim exE conjE)
  have r: "replace_loop api r (item # items) s = Inr s'" using e1 e' by simp
  have a: "set (sell_orders s') \<subseteq> set (sell_orders s)" using a' a1 by (rule subset_trans)
  have b: "fst ` set (buy_orders s) \<subseteq> fst ` set (buy_orders s')" using b1 b' by (rule subset_trans)
  have k: "\<forall>kv \<in> set (sell_orders s). fst kv \<notin> fst ` set (item # items) \<longrightarrow> kv \<in> set (sell_orders s')"
  proof (intro ballI impI)
    fix kv assume m: "kv \<in> set (sell_orders s)" and n: "fst kv \<notin> fst ` set (item # items)"
    from n have n1: "fst kv \<noteq> fst item" and n2: "fst kv \<notin> fst ` set items" by simp_all
    from k1 m n1 have "kv \<in> set (sell_orders s1)" by simp
    with k' n2 show "kv \<in> set (sell_orders s')" by simp
  qed
  from r a k b show ?case by (intro exI[of _ s']) simp
qed

lemma replenish_branch:
  assumes nf: "\<not> all_sells_filled api s"
  shows "\<exists>af oi s1. sells_filled_loop api (sell_orders s) True None s = (af, oi, s1) \<and>
      same_fields s s1 \<and> submissions (calls s1) = submissions (calls s) \<and>
      check_and_replace_buy_orders api cfg s =
        replace_loop api (fsub 1 (drop_to_buy cfg)) (sell_orders s) s1"
proof -
  obtain af oi s1 where l: "sells_filled_loop api (sell_orders s) True None s = (af, oi, s1)"
    by (metis surj_pair)
  have af: "af = all_sells_filled api s"
    using sells_filled_loop_flag[of api "sell_orders s" True None s] l
    by (simp add: all_sells_filled_def)
  from sells_filled_loop_frame[OF l] have fr: "same_fields s s1"
    and sb: "submissions (calls s1) = submissions (calls s)" by simp_all
  then have so: "sell_orders s1 = sell_orders s" by (simp add: same_fields_def)
  from nf af have c: "\<not> (af \<and> 0 < length (sell_orders s))" by simp
  have e: "check_and_replace_buy_orders api cfg s =
      replace_loop api (fsub 1 (drop_to_buy cfg)) (sell_orders s) s1"
    unfolding check_and_replace_buy_orders_def Let_def l prod.case so if_not_P[OF c] ..
  from l fr sb e show ?thesis by blast
qed

end
